theory Spec2Isabelle
  imports Main "HOL-Library.Word"
begin

section \<open>The RESP codec of \<^verbatim>\<open>pkg/resp/protocol.go\<close>\<close>

text \<open>
  The wire is a sequence of bytes. A Go \<^verbatim>\<open>string\<close> is a byte sequence too, so both are
  \<^typ>\<open>char list\<close> (a HOL \<^typ>\<open>char\<close> is one byte). \<^verbatim>\<open>int64\<close> is a 64-bit word, read as a
  signed number with \<^term>\<open>sint\<close>.
\<close>

type_synonym byte = char
type_synonym int64 = "64 word"

text \<open>
  The errors a read can return: \<^verbatim>\<open>io.EOF\<close>, \<^verbatim>\<open>io.ErrUnexpectedEOF\<close>, the package's
  \<^verbatim>\<open>ErrInvalidFormat\<close>, the two causes of a \<^verbatim>\<open>strconv.NumError\<close>, and the
  \<^verbatim>\<open>fmt.Errorf("unknown RESP type byte: %c", typ)\<close> of \<^verbatim>\<open>ReadObject\<close>.
  A call either returns a value, returns an error, or panics; a panic is not an error
  value: it unwinds the goroutine and is kept apart.
\<close>

datatype error = EOF | ErrUnexpectedEOF | ErrInvalidFormat | ErrSyntax | ErrRange | UnknownType byte

datatype failure = Err error | Panic

type_synonym 'a result = "failure + 'a"

text \<open>
  What \<^verbatim>\<open>ReadObject\<close> hands back in its \<^verbatim>\<open>interface{}\<close>: a \<^verbatim>\<open>string\<close> (for a simple
  string and for a bulk string alike), an \<^verbatim>\<open>error\<close> made by \<^verbatim>\<open>errors.New(msg)\<close>, an
  \<^verbatim>\<open>int64\<close>, a \<^verbatim>\<open>[]interface{}\<close> (which may be the nil slice), and the nil interface
  that fills a freshly made slice.
\<close>

datatype obj = StringV string | ErrorV string | Int64V int64 | SliceV "obj list" | NilSliceV | NilV

definition SimpleString :: byte where "SimpleString = CHR ''+''"
definition Error :: byte where "Error = CHR ''-''"
definition Integer :: byte where "Integer = CHR '':''"
definition BulkString :: byte where "BulkString = CHR ''$''"
definition Array :: byte where "Array = CHR ''*''"

definition CR :: byte where "CR = CHR 0x0D"
definition LF :: byte where "LF = CHR 0x0A"
definition CRLF :: string where "CRLF = [CR, LF]"

subsection \<open>The buffered reader\<close>

text \<open>
  The reader's state is the input that is still unread: a finite byte sequence followed
  by end of stream. Every read returns its result together with the input that is left.
  \<^verbatim>\<open>ReadByte\<close>, \<^verbatim>\<open>ReadString(delim)\<close> and \<^verbatim>\<open>io.ReadFull\<close> are the three operations of
  \<^verbatim>\<open>bufio.Reader\<close> and \<^verbatim>\<open>io\<close> that the package calls. \<^verbatim>\<open>ReadString\<close> returns the bytes up to
  and including the first delimiter, and \<^verbatim>\<open>io.EOF\<close> when the stream ends before one;
  \<^verbatim>\<open>ReadFull\<close> fills a buffer of \<open>n\<close> bytes, returns \<^verbatim>\<open>io.EOF\<close> when it could read nothing
  and \<^verbatim>\<open>io.ErrUnexpectedEOF\<close> when it could read only a part (a buffer of length 0 is
  full at once).
\<close>

definition ReadByte :: "byte list \<Rightarrow> byte result \<times> byte list" where
  "ReadByte inp = (case inp of [] \<Rightarrow> (Inl (Err EOF), []) | c # rest \<Rightarrow> (Inr c, rest))"

definition ReadString :: "byte \<Rightarrow> byte list \<Rightarrow> string result \<times> byte list" where
  "ReadString delim inp =
     (if delim \<in> set inp
      then (Inr (takeWhile (\<lambda>c. c \<noteq> delim) inp @ [delim]), tl (dropWhile (\<lambda>c. c \<noteq> delim) inp))
      else (Inl (Err EOF), []))"

definition ReadFull :: "nat \<Rightarrow> byte list \<Rightarrow> byte list result \<times> byte list" where
  "ReadFull n inp =
     (if n \<le> length inp then (Inr (take n inp), drop n inp)
      else if inp = [] then (Inl (Err EOF), [])
      else (Inl (Err ErrUnexpectedEOF), []))"

subsection \<open>\<^verbatim>\<open>readLine\<close> and \<^verbatim>\<open>readInteger\<close>\<close>

definition readLine :: "byte list \<Rightarrow> string result \<times> byte list" where
  "readLine inp =
     (case ReadString LF inp of
        (Inl f, r) \<Rightarrow> (Inl f, r)
      | (Inr line, r) \<Rightarrow>
          if length line < 2 \<or> line ! (length line - 2) \<noteq> CR then (Inl (Err ErrInvalidFormat), r)
          else (Inr (take (length line - 2) line), r))"

text \<open>
  \<^verbatim>\<open>strconv.ParseInt(line, 10, 64)\<close>. \<^verbatim>\<open>ParseUint\<close> walks the bytes with an accumulator
  \<open>n\<close> of type \<^verbatim>\<open>uint64\<close>; a byte that is not a decimal digit is a syntax error (a letter
  is a digit of a larger base, an underscore is allowed in base 0 only). Before
  \<^verbatim>\<open>n *= 10\<close> it checks \<^verbatim>\<open>n >= cutoff\<close>, with \<^verbatim>\<open>cutoff = maxUint64/10 + 1\<close>, so the
  product does not wrap; the sum \<^verbatim>\<open>n1 = n + d\<close> may wrap, which the code detects as
  \<^verbatim>\<open>n1 < n || n1 > maxVal\<close>. On unbounded naturals both tests are \<open>n1 > maxUint64\<close>.
  \<^verbatim>\<open>ParseInt\<close> takes an optional sign off, and a range error of \<^verbatim>\<open>ParseUint\<close> (which
  comes with the value \<^verbatim>\<open>maxUint64\<close>) is a range error of \<^verbatim>\<open>ParseInt\<close> for either sign.
\<close>

definition is_digit :: "byte \<Rightarrow> bool" where
  "is_digit c = (of_char (CHR ''0'') \<le> (of_char c :: nat) \<and> (of_char c :: nat) \<le> of_char (CHR ''9''))"

definition maxUint64 :: nat where "maxUint64 = 2 ^ 64 - 1"

fun ParseUint_loop :: "nat \<Rightarrow> byte list \<Rightarrow> nat result" where
  "ParseUint_loop n [] = Inr n"
| "ParseUint_loop n (c # cs) =
     (if is_digit c then
        (let d = of_char c - of_char (CHR ''0'') in
         if n \<ge> maxUint64 div 10 + 1 then Inl (Err ErrRange)
         else (let n1 = n * 10 + d in
               if n1 > maxUint64 then Inl (Err ErrRange) else ParseUint_loop n1 cs))
      else Inl (Err ErrSyntax))"

definition ParseUint :: "string \<Rightarrow> nat result" where
  "ParseUint s = (if s = [] then Inl (Err ErrSyntax) else ParseUint_loop 0 s)"

definition ParseInt :: "string \<Rightarrow> int64 result" where
  "ParseInt s =
     (if s = [] then Inl (Err ErrSyntax)
      else (let neg = (hd s = CHR ''-'');
                s1 = (if hd s = CHR ''+'' \<or> hd s = CHR ''-'' then tl s else s)
            in case ParseUint s1 of
                 Inl f \<Rightarrow> Inl f
               | Inr un \<Rightarrow>
                   if \<not> neg \<and> un \<ge> 2 ^ 63 then Inl (Err ErrRange)
                   else if neg \<and> un > 2 ^ 63 then Inl (Err ErrRange)
                   else Inr (if neg then - of_nat un else of_nat un)))"

definition readInteger :: "byte list \<Rightarrow> int64 result \<times> byte list" where
  "readInteger inp =
     (case readLine inp of
        (Inl f, r) \<Rightarrow> (Inl f, r)
      | (Inr line, r) \<Rightarrow> (ParseInt line, r))"

subsection \<open>\<^verbatim>\<open>readBulkString\<close>, \<^verbatim>\<open>readArray\<close> and \<^verbatim>\<open>ReadObject\<close>\<close>

text \<open>
  \<^verbatim>\<open>make([]T, len)\<close> panics (\<^verbatim>\<open>makeslice: len out of range\<close>) when \<open>len\<close> is negative or
  when \<open>len\<close> elements need more than the runtime's \<^verbatim>\<open>maxAlloc\<close> bytes, which is
  \<open>2\<^sup>4\<^sup>8\<close> on the 64-bit platforms the repository targets. A byte takes 1 byte and an
  \<^verbatim>\<open>interface{}\<close> takes 16. An allocation below that limit is taken to succeed: running
  out of memory is not part of the model.
\<close>

definition maxAlloc :: nat where "maxAlloc = 2 ^ 48"

definition makeslice_ok :: "nat \<Rightarrow> int \<Rightarrow> bool" where
  "makeslice_ok elemsize len = (0 \<le> len \<and> elemsize * nat len \<le> maxAlloc)"

definition HasSuffix :: "string \<Rightarrow> string \<Rightarrow> bool" where
  "HasSuffix s suf = (length suf \<le> length s \<and> drop (length s - length suf) s = suf)"

text \<open>
  \<^verbatim>\<open>length+2\<close> is an \<^verbatim>\<open>int64\<close> addition and wraps. The last test is the bounds check of the
  slice expression \<^verbatim>\<open>buf[:length]\<close>.
\<close>

definition readBulkString :: "byte list \<Rightarrow> string result \<times> byte list" where
  "readBulkString inp =
     (case readInteger inp of
        (Inl f, r) \<Rightarrow> (Inl f, r)
      | (Inr len, r) \<Rightarrow>
          if len = - 1 then (Inr [], r)
          else if \<not> makeslice_ok 1 (sint (len + 2)) then (Inl Panic, r)
          else (case ReadFull (nat (sint (len + 2))) r of
                  (Inl f, r') \<Rightarrow> (Inl f, r')
                | (Inr buf, r') \<Rightarrow>
                    if \<not> HasSuffix buf CRLF then (Inl (Err ErrInvalidFormat), r')
                    else if sint len < 0 \<or> length buf < nat (sint len) then (Inl Panic, r')
                    else (Inr (take (nat (sint len)) buf), r')))"

text \<open>
  \<^verbatim>\<open>return r.readLine()\<close> and its siblings in \<^verbatim>\<open>ReadObject\<close> box the typed result in an
  \<^verbatim>\<open>interface{}\<close> and pass the error on.
\<close>

definition to_obj :: "('a \<Rightarrow> obj) \<Rightarrow> 'a result \<times> byte list \<Rightarrow> obj result \<times> byte list" where
  "to_obj conv res = (case res of (Inl f, r) \<Rightarrow> (Inl f, r) | (Inr v, r) \<Rightarrow> (Inr (conv v), r))"

text \<open>
  \<^verbatim>\<open>readArray_loop i array\<close> is the loop \<^verbatim>\<open>for i := range array\<close> of \<^verbatim>\<open>readArray\<close> from index
  \<open>i\<close> on: it stores each object it reads at \<^verbatim>\<open>array[i]\<close> and leaves with \<^verbatim>\<open>nil, err\<close> at the
  first element that fails.
\<close>

function ReadObject :: "byte list \<Rightarrow> obj result \<times> byte list"
  and readArray :: "byte list \<Rightarrow> obj result \<times> byte list"
  and readArray_loop :: "nat \<Rightarrow> obj list \<Rightarrow> byte list \<Rightarrow> obj result \<times> byte list"
where
  "ReadObject inp =
     (case ReadByte inp of
        (Inl f, r) \<Rightarrow> (Inl f, r)
      | (Inr typ, r) \<Rightarrow>
          if typ = SimpleString then to_obj StringV (readLine r)
          else if typ = Error then to_obj ErrorV (readLine r)
          else if typ = Integer then to_obj Int64V (readInteger r)
          else if typ = BulkString then to_obj StringV (readBulkString r)
          else if typ = Array then readArray r
          else (Inl (Err (UnknownType typ)), r))"
| "readArray inp =
     (case readInteger inp of
        (Inl f, r) \<Rightarrow> (Inl f, r)
      | (Inr len, r) \<Rightarrow>
          if len = - 1 then (Inr NilSliceV, r)
          else if \<not> makeslice_ok 16 (sint len) then (Inl Panic, r)
          else readArray_loop 0 (replicate (nat (sint len)) NilV) r)"
| "readArray_loop i array inp =
     (if i < length array then
        (case ReadObject inp of
           (Inl f, r) \<Rightarrow> (Inl f, r)
         | (Inr v, r) \<Rightarrow> readArray_loop (i + 1) (array[i := v]) r)
      else (Inr (SliceV array), inp))"
  by pat_completeness auto

text \<open>No read gives back more input than it was given; a byte that was read is gone.\<close>

lemma ReadByte_length: "ReadByte inp = (x, r) \<Longrightarrow> length r \<le> length inp"
  by (auto simp: ReadByte_def split: list.splits)

lemma ReadByte_Inr: "ReadByte inp = (Inr c, r) \<Longrightarrow> inp = c # r"
  by (auto simp: ReadByte_def split: list.splits)

lemma length_tl_dropWhile: "length (dropWhile P xs) - Suc 0 \<le> length xs"
  by (meson diff_le_self le_trans length_dropWhile_le)

lemma ReadString_length: "ReadString d inp = (x, r) \<Longrightarrow> length r \<le> length inp"
  by (auto simp: ReadString_def length_tl_dropWhile split: if_splits)

lemma readLine_length: "readLine inp = (x, r) \<Longrightarrow> length r \<le> length inp"
  by (auto simp: readLine_def split: prod.splits sum.splits if_splits dest: ReadString_length)

lemma readInteger_length: "readInteger inp = (x, r) \<Longrightarrow> length r \<le> length inp"
  by (auto simp: readInteger_def split: prod.splits sum.splits dest: readLine_length)

lemma ReadFull_length: "ReadFull n inp = (x, r) \<Longrightarrow> length r \<le> length inp"
  by (auto simp: ReadFull_def split: if_splits)

lemma readBulkString_length: "readBulkString inp = (x, r) \<Longrightarrow> length r \<le> length inp"
  by (auto simp: readBulkString_def split: prod.splits sum.splits if_splits
      dest!: readInteger_length ReadFull_length)

lemma to_obj_length: "to_obj conv res = (x, r) \<Longrightarrow> length r = length (snd res)"
  by (auto simp: to_obj_def split: prod.splits sum.splits)

lemma ReadObject_dom_length:
  "ReadObject_readArray_readArray_loop_dom (Inl inp) \<Longrightarrow>
     length (snd (ReadObject inp)) \<le> length inp"
  "ReadObject_readArray_readArray_loop_dom (Inr (Inl inp1)) \<Longrightarrow>
     length (snd (readArray inp1)) \<le> length inp1"
  "ReadObject_readArray_readArray_loop_dom (Inr (Inr (i, array, inp2))) \<Longrightarrow>
     length (snd (readArray_loop i array inp2)) \<le> length inp2"
proof (induction rule: ReadObject_readArray_readArray_loop.pinduct)
  case (1 inp)
  obtain x r where rb: "ReadByte inp = (x, r)" by (cases "ReadByte inp")
  show ?case
  proof (cases x)
    case (Inl f)
    with rb "1"(1) show ?thesis
      by (simp add: ReadObject.psimps ReadByte_length)
  next
    case (Inr ty)
    have lr: "length r \<le> length inp" using rb by (rule ReadByte_length)
    have a: "length (snd (to_obj c (readLine r))) \<le> length r" for c
      using to_obj_length[of c "readLine r"] readLine_length[of r]
      by (metis prod.collapse)
    have b: "length (snd (to_obj c (readInteger r))) \<le> length r" for c
      using to_obj_length[of c "readInteger r"] readInteger_length[of r]
      by (metis prod.collapse)
    have c: "length (snd (to_obj c (readBulkString r))) \<le> length r" for c
      using to_obj_length[of c "readBulkString r"] readBulkString_length[of r]
      by (metis prod.collapse)
    have d: "ty = Array \<Longrightarrow> ty \<noteq> SimpleString \<Longrightarrow> ty \<noteq> Error \<Longrightarrow> ty \<noteq> Integer
        \<Longrightarrow> ty \<noteq> BulkString \<Longrightarrow> length (snd (readArray r)) \<le> length r"
      using "1"(2)[of x r ty] rb Inr by simp
    have eq: "ReadObject inp = (if ty = SimpleString then to_obj StringV (readLine r)
          else if ty = Error then to_obj ErrorV (readLine r)
          else if ty = Integer then to_obj Int64V (readInteger r)
          else if ty = BulkString then to_obj StringV (readBulkString r)
          else if ty = Array then readArray r
          else (Inl (Err (UnknownType ty)), r))"
      using rb Inr "1"(1) by (simp add: ReadObject.psimps)
    show ?thesis
      unfolding eq using a b c d lr by (auto intro: le_trans)
  qed
next
  case (2 inp)
  obtain x r where ri: "readInteger inp = (x, r)" by (cases "readInteger inp")
  have lr: "length r \<le> length inp" using ri by (rule readInteger_length)
  show ?case
  proof (cases x)
    case (Inl f)
    with ri "2"(1) lr show ?thesis by (simp add: readArray.psimps)
  next
    case (Inr len)
    with ri "2"(1) lr "2"(2)[of x r len] show ?thesis
      by (auto simp: readArray.psimps)
  qed
next
  case (3 i array inp)
  show ?case
  proof (cases "i < length array")
    case False
    with "3"(1) show ?thesis by (simp add: readArray_loop.psimps)
  next
    case True
    obtain x r where ro: "ReadObject inp = (x, r)" by (cases "ReadObject inp")
    have lr: "length r \<le> length inp" using "3"(2)[OF True] ro by simp
    show ?thesis
    proof (cases x)
      case (Inl f)
      with ro "3"(1) lr True show ?thesis by (simp add: readArray_loop.psimps)
    next
      case (Inr v)
      with ro "3"(1) lr True "3"(3)[of x r v] show ?thesis
        by (auto simp: readArray_loop.psimps)
    qed
  qed
qed

text \<open>
  The reader terminates on every input: the unread input never grows, \<^verbatim>\<open>ReadObject\<close>
  hands \<^verbatim>\<open>readArray\<close> strictly less than it was given, and the loop counts up to the
  length of the array.
\<close>

termination ReadObject
proof (relation "inv_image (less_than <*lex*> less_than <*lex*> less_than)
     (\<lambda>x. case x of Inl inp \<Rightarrow> (length inp, 0::nat, 0::nat)
                 | Inr (Inl inp) \<Rightarrow> (length inp, 2, 0)
                 | Inr (Inr (i, array, inp)) \<Rightarrow> (length inp, 1, length array - i))", goal_cases)
  case 1
  show ?case by (intro wf_inv_image wf_lex_prod wf_less_than)
next
  case (2 inp x y b)
  then have "ReadByte inp = (Inr b, y)" by simp
  then have "inp = b # y" by (rule ReadByte_Inr)
  then show ?case by simp
next
  case (3 inp x y b)
  then have "readInteger inp = (x, y)" by simp
  then have "length y \<le> length inp" by (rule readInteger_length)
  then show ?case by (auto simp: less_le)
next
  case (4 i array inp)
  then show ?case by simp
next
  case (5 i array inp x y b)
  then have "length (snd (ReadObject inp)) \<le> length inp" "snd (ReadObject inp) = y"
    using ReadObject_dom_length(1)[of inp] by (simp, metis snd_conv)
  then have "length y \<le> length inp" by simp
  then have "length y < length inp \<or> length y = length inp" by arith
  with "5"(1) show ?case by auto
qed

declare ReadObject.simps [simp del] readArray.simps [simp del] readArray_loop.simps [simp del]

subsection \<open>The writer\<close>

text \<open>
  The writer's state is the sequence of bytes it has handed to its sink. \<^verbatim>\<open>writeString\<close>
  buffers the string and flushes, so when a write returns all its bytes are in the
  sink; the sink is taken to accept every byte, so a write returns nil.
\<close>

definition writeString :: "byte list \<Rightarrow> string \<Rightarrow> byte list" where
  "writeString w s = w @ s"

text \<open>
  The verb \<^verbatim>\<open>%d\<close> of \<^verbatim>\<open>fmt.Sprintf\<close> prints an integer in decimal, most significant digit
  first, without leading zeros, with a minus sign in front of a negative number.
\<close>

definition digit_char :: "nat \<Rightarrow> byte" where
  "digit_char d = char_of (of_char (CHR ''0'') + d)"

fun decimal :: "nat \<Rightarrow> string" where
  "decimal n = (if n < 10 then [digit_char n] else decimal (n div 10) @ [digit_char (n mod 10)])"

declare decimal.simps [simp del]

definition Sprint_d :: "int \<Rightarrow> string" where
  "Sprint_d i = (if i < 0 then CHR ''-'' # decimal (nat (- i)) else decimal (nat i))"

text \<open>
  The number that a sequence of decimal digits stands for, to say what the digits that
  \<^verbatim>\<open>%d\<close> prints mean.
\<close>

definition decimal_value :: "string \<Rightarrow> nat" where
  "decimal_value ds = foldl (\<lambda>a c. a * 10 + (of_char c - of_char (CHR ''0''))) 0 ds"

text \<open>
  The five writes. An \<^verbatim>\<open>error\<close> is written by its message \<^verbatim>\<open>err.Error()\<close>, so
  \<^verbatim>\<open>WriteError\<close> takes the message of an error that is not nil. \<^verbatim>\<open>len(s)\<close> and the argument
  of \<^verbatim>\<open>WriteArray\<close> are of Go's type \<^verbatim>\<open>int\<close>; the writer compares them with 0 and prints
  them, and they are integers here.
\<close>

definition WriteSimpleString :: "byte list \<Rightarrow> string \<Rightarrow> byte list" where
  "WriteSimpleString w s = writeString w (SimpleString # s @ CRLF)"

definition WriteError :: "byte list \<Rightarrow> string \<Rightarrow> byte list" where
  "WriteError w msg = writeString w (Error # msg @ CRLF)"

definition WriteInteger :: "byte list \<Rightarrow> int64 \<Rightarrow> byte list" where
  "WriteInteger w i = writeString w (Integer # Sprint_d (sint i) @ CRLF)"

definition WriteBulkString :: "byte list \<Rightarrow> string \<Rightarrow> byte list" where
  "WriteBulkString w s =
     (if s = [] then writeString w (BulkString # ''-1'' @ CRLF)
      else writeString w (BulkString # Sprint_d (int (length s)) @ CRLF @ s @ CRLF))"

definition WriteArray :: "byte list \<Rightarrow> int \<Rightarrow> byte list" where
  "WriteArray w len =
     (if len < 0 then writeString w (Array # ''-1'' @ CRLF)
      else writeString w (Array # Sprint_d len @ CRLF))"

subsection \<open>Value trees\<close>

text \<open>
  Modelled from the spec: the value tree of the data model, which the packages do not
  declare. A value is a simple string, an error, an integer, a bulk string or the null
  bulk string, an array or the null array.
\<close>

datatype resp =
    SimpleStringR string
  | ErrorR string
  | IntegerR int64
  | BulkStringR string
  | NullBulkStringR
  | ArrayR "resp list"
  | NullArrayR

text \<open>
  Modelled from the spec: the encoding of a whole tree. The writer has no operation
  that takes a tree: it writes one scalar or one array header per call. \<open>encode\<close> makes
  the calls that put a tree on the wire as the wire format says: the header of an
  array followed by its elements in order, the null bulk string by
  \<^verbatim>\<open>WriteBulkString("")\<close> (as \<^verbatim>\<open>WriteNull\<close> of the connection adapters does) and the null
  array by \<^verbatim>\<open>WriteArray(-1)\<close>.
\<close>

fun encode :: "byte list \<Rightarrow> resp \<Rightarrow> byte list" where
  "encode w (SimpleStringR s) = WriteSimpleString w s"
| "encode w (ErrorR msg) = WriteError w msg"
| "encode w (IntegerR i) = WriteInteger w i"
| "encode w (BulkStringR s) = WriteBulkString w s"
| "encode w NullBulkStringR = WriteBulkString w []"
| "encode w (ArrayR vs) = foldl encode (WriteArray w (int (length vs))) vs"
| "encode w NullArrayR = WriteArray w (- 1)"

text \<open>
  The Go value by which \<^verbatim>\<open>ReadObject\<close> represents each kind of value: a \<^verbatim>\<open>string\<close> for a
  simple string and for a bulk string, the empty \<^verbatim>\<open>string\<close> for the null bulk string
  (\<^verbatim>\<open>return "", nil // null bulk string\<close>), the nil slice for the null array.
\<close>

fun go_value :: "resp \<Rightarrow> obj" where
  "go_value (SimpleStringR s) = StringV s"
| "go_value (ErrorR msg) = ErrorV msg"
| "go_value (IntegerR i) = Int64V i"
| "go_value (BulkStringR s) = StringV s"
| "go_value NullBulkStringR = StringV []"
| "go_value (ArrayR vs) = SliceV (map go_value vs)"
| "go_value NullArrayR = NilSliceV"

text \<open>
  The trees that the codec can carry: no line feed inside a simple string or an error
  message (they are written as a line, and nothing escapes them), and every bulk string
  and array small enough for the reader to allocate.
\<close>

fun carried :: "resp \<Rightarrow> bool" where
  "carried (SimpleStringR s) = (LF \<notin> set s)"
| "carried (ErrorR msg) = (LF \<notin> set msg)"
| "carried (IntegerR i) = True"
| "carried (BulkStringR s) = (length s + 2 \<le> maxAlloc)"
| "carried NullBulkStringR = True"
| "carried (ArrayR vs) = (16 * length vs \<le> maxAlloc \<and> (\<forall>v \<in> set vs. carried v))"
| "carried NullArrayR = True"

subsection \<open>Reading a sequence of values\<close>

text \<open>
  What the specification says of an array of \<open>n\<close> elements, written down on its own: read
  \<open>n\<close> values one after the other, each with \<^verbatim>\<open>ReadObject\<close>, keep their order, and stop
  with the failure of the first value that fails. The loop of \<^verbatim>\<open>readArray\<close> is compared
  with it below.
\<close>

fun read_values :: "nat \<Rightarrow> byte list \<Rightarrow> obj list result \<times> byte list" where
  "read_values 0 inp = (Inr [], inp)"
| "read_values (Suc k) inp =
     (case ReadObject inp of
        (Inl f, r) \<Rightarrow> (Inl f, r)
      | (Inr v, r) \<Rightarrow>
          (case read_values k r of
             (Inl f, r') \<Rightarrow> (Inl f, r')
           | (Inr vs, r') \<Rightarrow> (Inr (v # vs), r')))"

section \<open>The command registry of package \<^verbatim>\<open>command\<close>\<close>

text \<open>
  An \<^verbatim>\<open>error\<close> of this package is made by \<^verbatim>\<open>errors.New\<close> and is told apart by its
  message.
\<close>

datatype go_error = errors_New string

definition ErrInvalidArgCount :: go_error where
  "ErrInvalidArgCount = errors_New ''invalid number of arguments''"

definition ErrInvalidArgType :: go_error where
  "ErrInvalidArgType = errors_New ''invalid argument type''"

definition ErrCommandNotFound :: go_error where
  "ErrCommandNotFound = errors_New ''command not found''"

text \<open>
  A \<^verbatim>\<open>Command\<close>. The handler is a Go function value, or nil; what a handler does plays no
  part in the registry, so handlers are values of a type parameter \<open>'h\<close> and a nil
  handler is \<^term>\<open>None\<close>. The mutex fields of \<^verbatim>\<open>Command\<close> and \<^verbatim>\<open>Extension\<close> order
  concurrent calls; the model is of one call at a time and leaves them out.
\<close>

record 'h Command =
  Name :: string
  Handler :: "'h option"
  MinArgs :: int
  MaxArgs :: int
  Description :: string

definition New :: "string \<Rightarrow> 'h Command" where
  "New name = \<lparr>Name = name, Handler = None, MinArgs = 0, MaxArgs = - 1, Description = []\<rparr>"

subsection \<open>The registry and the commands it points to\<close>

text \<open>
  The map of an \<^verbatim>\<open>Extension\<close> holds pointers: \<^verbatim>\<open>AddCommand\<close> stores the pointer it is given
  and \<^verbatim>\<open>GetCommand\<close> returns it, so the caller and the registry share the command. The
  commands live in a store, a function from addresses to commands (Go has no dangling
  pointer, so every address holds a command); a \<^verbatim>\<open>*Command\<close> is an address or nil, which
  is \<^term>\<open>None\<close>.
\<close>

type_synonym addr = nat
type_synonym 'h store = "addr \<Rightarrow> 'h Command"

record Extension_ptr =
  Name :: string
  commands :: "string \<rightharpoonup> addr"

definition NewExtension_ptr :: "string \<Rightarrow> Extension_ptr" where
  "NewExtension_ptr name = \<lparr>Name = name, commands = Map.empty\<rparr>"

text \<open>
  \<^verbatim>\<open>AddCommand\<close> reads \<^verbatim>\<open>cmd.Name\<close> and \<^verbatim>\<open>cmd.Handler\<close> in the store and writes the map only;
  \<^verbatim>\<open>GetCommand\<close> reads the map only. Neither writes the store.
\<close>

definition AddCommand_ptr ::
  "'h store \<Rightarrow> Extension_ptr \<Rightarrow> addr option \<Rightarrow> go_error option \<times> Extension_ptr" where
  "AddCommand_ptr h e cmd =
     (case cmd of
        None \<Rightarrow> (Some (errors_New ''command cannot be nil''), e)
      | Some a \<Rightarrow>
          if Command.Name (h a) = [] then (Some (errors_New ''command name cannot be empty''), e)
          else if Handler (h a) = None then (Some (errors_New ''command handler cannot be nil''), e)
          else (None, e\<lparr>commands := (commands e)(Command.Name (h a) \<mapsto> a)\<rparr>))"

definition GetCommand_ptr :: "Extension_ptr \<Rightarrow> string \<Rightarrow> go_error + addr" where
  "GetCommand_ptr e name =
     (case commands e name of
        None \<Rightarrow> Inl ErrCommandNotFound
      | Some cmd \<Rightarrow> Inr cmd)"

text \<open>
  What a program does with a registry and its commands, one step at a time: it
  registers a pointer, or it assigns to an exported field of a command through a
  pointer it holds, as in \<^verbatim>\<open>helloCmd.Handler = func(...)\<close> of the examples. A lookup changes
  nothing and is no step.
\<close>

datatype 'h event =
    Register "addr option"
  | Assign_Name addr string
  | Assign_Handler addr "'h option"
  | Assign_MinArgs addr int
  | Assign_MaxArgs addr int
  | Assign_Description addr string

fun step :: "'h store \<times> Extension_ptr \<Rightarrow> 'h event \<Rightarrow> 'h store \<times> Extension_ptr" where
  "step (h, e) (Register cmd) = (h, snd (AddCommand_ptr h e cmd))"
| "step (h, e) (Assign_Name a s) = (h(a := (h a)\<lparr>Command.Name := s\<rparr>), e)"
| "step (h, e) (Assign_Handler a f) = (h(a := (h a)\<lparr>Handler := f\<rparr>), e)"
| "step (h, e) (Assign_MinArgs a n) = (h(a := (h a)\<lparr>MinArgs := n\<rparr>), e)"
| "step (h, e) (Assign_MaxArgs a n) = (h(a := (h a)\<lparr>MaxArgs := n\<rparr>), e)"
| "step (h, e) (Assign_Description a s) = (h(a := (h a)\<lparr>Description := s\<rparr>), e)"

fun run :: "'h store \<times> Extension_ptr \<Rightarrow> 'h event list \<Rightarrow> 'h store \<times> Extension_ptr" where
  "run s [] = s"
| "run s (ev # evs) = run (step s ev) evs"

text \<open>
  A step leaves the registered commands alone when it does not assign to the name or
  to the handler of a command that the registry points to at that moment; a run does
  when each of its steps does.
\<close>

fun leaves_registered :: "'h store \<times> Extension_ptr \<Rightarrow> 'h event \<Rightarrow> bool" where
  "leaves_registered (h, e) (Assign_Name a s) = (a \<notin> ran (commands e))"
| "leaves_registered (h, e) (Assign_Handler a f) = (a \<notin> ran (commands e))"
| "leaves_registered (h, e) ev = True"

fun undisturbed :: "'h store \<times> Extension_ptr \<Rightarrow> 'h event list \<Rightarrow> bool" where
  "undisturbed s [] = True"
| "undisturbed s (ev # evs) = (leaves_registered s ev \<and> undisturbed (step s ev) evs)"

text \<open>
  The commands that a registry points to are well formed, in a store, when each has a
  name and a handler there.
\<close>

definition well_formed :: "'h store \<times> Extension_ptr \<Rightarrow> bool" where
  "well_formed s =
     (\<forall>a \<in> ran (Extension_ptr.commands (snd s)).
        Command.Name (fst s a) \<noteq> [] \<and> Handler (fst s a) \<noteq> None)"

text \<open>
  A store in which every command is as \<^verbatim>\<open>command.New("")\<close> makes it.
\<close>

definition new_store :: "'h store" where
  "new_store = (\<lambda>a. New [])"

subsection \<open>The registry at a fixed store\<close>

text \<open>
  As long as the store stays as it is, a pointer stands for the command it points to,
  and the registry is a map from names to commands: the view of \<^verbatim>\<open>Extension\<close> below, with
  \<^verbatim>\<open>AddCommand\<close> and \<^verbatim>\<open>GetCommand\<close> on it. \<open>view\<close> takes a registry of pointers to it, and the
  operations agree (lemmas \<open>AddCommand_view\<close> and \<open>GetCommand_view\<close>). The argument of
  \<^verbatim>\<open>AddCommand\<close> is then the command pointed to, or \<^term>\<open>None\<close> for nil.
\<close>

record 'h Extension =
  Name :: string
  commands :: "string \<rightharpoonup> 'h Command"

definition NewExtension :: "string \<Rightarrow> 'h Extension" where
  "NewExtension name = \<lparr>Name = name, commands = Map.empty\<rparr>"

text \<open>
  \<^verbatim>\<open>AddCommand\<close> returns its error (\<^term>\<open>None\<close> for nil) and the registry it leaves
  behind; \<^verbatim>\<open>GetCommand\<close> only reads and returns \<^verbatim>\<open>nil, ErrCommandNotFound\<close> or
  \<^verbatim>\<open>cmd, nil\<close>.
\<close>

definition AddCommand :: "'h Extension \<Rightarrow> 'h Command option \<Rightarrow> go_error option \<times> 'h Extension" where
  "AddCommand e cmd =
     (case cmd of
        None \<Rightarrow> (Some (errors_New ''command cannot be nil''), e)
      | Some c \<Rightarrow>
          if Command.Name c = [] then (Some (errors_New ''command name cannot be empty''), e)
          else if Handler c = None then (Some (errors_New ''command handler cannot be nil''), e)
          else (None, e\<lparr>commands := (commands e)(Command.Name c \<mapsto> c)\<rparr>))"

definition GetCommand :: "'h Extension \<Rightarrow> string \<Rightarrow> go_error + 'h Command" where
  "GetCommand e name =
     (case commands e name of
        None \<Rightarrow> Inl ErrCommandNotFound
      | Some cmd \<Rightarrow> Inr cmd)"

definition view :: "'h store \<Rightarrow> Extension_ptr \<Rightarrow> 'h Extension" where
  "view h e = \<lparr>Name = Extension_ptr.Name e,
              commands = (\<lambda>name. map_option h (Extension_ptr.commands e name))\<rparr>"

section \<open>Properties of the codec\<close>

subsection \<open>Lines and decimal numbers\<close>

text \<open>A line without a line feed in it, followed by CRLF, is read back as it is.\<close>

lemma readLine_CRLF: "LF \<notin> set s \<Longrightarrow> readLine (s @ CRLF @ rest) = (Inr s, rest)"
proof -
  assume nl: "LF \<notin> set s"
  have ne: "CR \<noteq> LF" by (simp add: CR_def LF_def)
  have tw: "takeWhile (\<lambda>c. c \<noteq> LF) (s @ CRLF @ rest) = s @ [CR]"
    using nl ne by (induction s) (auto simp add: CRLF_def)
  have dw: "dropWhile (\<lambda>c. c \<noteq> LF) (s @ CRLF @ rest) = LF # rest"
    using nl ne by (induction s) (auto simp add: CRLF_def)
  have rs: "ReadString LF (s @ CRLF @ rest) = (Inr (s @ [CR, LF]), rest)"
    unfolding ReadString_def tw dw by (simp add: CRLF_def)
  show ?thesis
    unfolding readLine_def rs by (simp add: nth_append)
qed

text \<open>
  What \<^verbatim>\<open>%d\<close> prints, \<^verbatim>\<open>ParseInt\<close> reads back: the digits of a number below \<open>2\<^sup>6\<^sup>4\<close> never
  trip the overflow tests of \<^verbatim>\<open>ParseUint\<close>, and every \<^verbatim>\<open>int64\<close> is within the range that
  \<^verbatim>\<open>ParseInt\<close> accepts for its sign.
\<close>

lemma of_char_digit_char: "d < 10 \<Longrightarrow> of_char (digit_char d) = (48 + d :: nat)"
  by (simp add: digit_char_def of_char_of)

lemma is_digit_digit_char: "d < 10 \<Longrightarrow> is_digit (digit_char d)"
  by (simp add: is_digit_def of_char_digit_char)

lemma ParseUint_loop_append:
  "ParseUint_loop n (xs @ ys) =
     (case ParseUint_loop n xs of Inl f \<Rightarrow> Inl f | Inr m \<Rightarrow> ParseUint_loop m ys)"
  by (induction xs arbitrary: n) (auto simp: Let_def)

lemma ParseUint_loop_digit:
  "d < 10 \<Longrightarrow> n \<le> maxUint64 div 10 \<Longrightarrow> n * 10 + d \<le> maxUint64 \<Longrightarrow>
   ParseUint_loop n [digit_char d] = Inr (n * 10 + d)"
  by (simp add: is_digit_digit_char of_char_digit_char Let_def)

lemma ParseUint_loop_decimal:
  "n \<le> maxUint64 \<Longrightarrow> ParseUint_loop 0 (decimal n) = Inr n"
proof (induction n rule: decimal.induct)
  case (1 n)
  show ?case
  proof (cases "n < 10")
    case True
    then show ?thesis
      using "1.prems" ParseUint_loop_digit[of n 0] by (simp add: decimal.simps[of n])
  next
    case False
    have q: "n div 10 \<le> maxUint64 div 10" using "1.prems" by (simp add: div_le_mono)
    then have "n div 10 \<le> maxUint64" by (simp add: maxUint64_def)
    then have ih: "ParseUint_loop 0 (decimal (n div 10)) = Inr (n div 10)"
      using "1.IH" False by simp
    have "ParseUint_loop (n div 10) [digit_char (n mod 10)] = Inr (n div 10 * 10 + n mod 10)"
      using q "1.prems" by (intro ParseUint_loop_digit) auto
    then show ?thesis
      using False ih by (simp add: decimal.simps[of n] ParseUint_loop_append)
  qed
qed

lemma set_decimal: "set (decimal n) \<subseteq> digit_char ` {..<10}"
proof (induction n rule: decimal.induct)
  case (1 n)
  show ?case
  proof (cases "n < 10")
    case True
    then show ?thesis by (simp add: decimal.simps[of n])
  next
    case False
    then show ?thesis using "1.IH" by (simp add: decimal.simps[of n])
  qed
qed

lemma decimal_value_decimal: "decimal_value (decimal n) = n"
proof (induction n rule: decimal.induct)
  case (1 n)
  show ?case
  proof (cases "n < 10")
    case True
    then show ?thesis
      by (simp add: decimal.simps[of n] decimal_value_def of_char_digit_char)
  next
    case False
    then have ih: "decimal_value (decimal (n div 10)) = n div 10" using "1.IH" by simp
    have "decimal_value (decimal n)
        = decimal_value (decimal (n div 10)) * 10 + (of_char (digit_char (n mod 10)) - 48)"
      using False by (simp add: decimal.simps[of n] decimal_value_def)
    also have "\<dots> = n div 10 * 10 + n mod 10"
      by (simp add: ih of_char_digit_char)
    finally show ?thesis by simp
  qed
qed

lemma decimal_digits: "list_all is_digit (decimal n)"
proof -
  have "is_digit c" if "c \<in> set (decimal n)" for c
  proof -
    from that set_decimal[of n] have "c \<in> digit_char ` {..<10}" by (rule subsetD[rotated])
    then obtain d where "d < 10" "c = digit_char d" by (auto simp: image_iff)
    then show ?thesis by (simp add: is_digit_digit_char)
  qed
  then show ?thesis by (simp add: list_all_iff)
qed

lemma decimal_not_Nil: "decimal n \<noteq> []"
  by (subst decimal.simps) simp

lemma digit_char_neq:
  assumes "d < 10"
  shows "digit_char d \<noteq> LF \<and> digit_char d \<noteq> CHR ''-'' \<and> digit_char d \<noteq> CHR ''+''"
proof -
  have ge: "(48::nat) \<le> of_char (digit_char d)"
    using assms by (simp add: of_char_digit_char)
  have "digit_char d \<noteq> c" if "(of_char c :: nat) < 48" for c
  proof
    assume "digit_char d = c"
    then have "(of_char (digit_char d) :: nat) = of_char c" by (rule arg_cong)
    with ge that show False by linarith
  qed
  from this[of LF] this[of "CHR ''-''"] this[of "CHR ''+''"] show ?thesis
    by (simp add: LF_def)
qed

lemma decimal_chars:
  assumes "c \<in> set (decimal n)"
  shows "c \<noteq> LF \<and> c \<noteq> CHR ''-'' \<and> c \<noteq> CHR ''+''"
proof -
  from assms set_decimal[of n] have "c \<in> digit_char ` {..<10}" by (rule subsetD[rotated])
  then obtain d where "d < 10" "c = digit_char d" by (auto simp: image_iff)
  then show ?thesis using digit_char_neq[of d] by simp
qed

lemma LF_notin_decimal: "LF \<notin> set (decimal n)"
proof
  assume "LF \<in> set (decimal n)"
  then have "LF \<noteq> LF" by (rule conjunct1[OF decimal_chars])
  then show False by simp
qed

lemma hd_decimal: "hd (decimal n) \<noteq> CHR ''-'' \<and> hd (decimal n) \<noteq> CHR ''+''"
  using decimal_chars[of "hd (decimal n)" n] decimal_not_Nil[of n] by simp

lemma LF_notin_Sprint_d: "LF \<notin> set (Sprint_d i)"
proof -
  have "LF \<noteq> CHR ''-''" by (simp add: LF_def)
  then show ?thesis by (simp add: Sprint_d_def LF_notin_decimal)
qed

lemma ParseUint_decimal: "n \<le> maxUint64 \<Longrightarrow> ParseUint (decimal n) = Inr n"
  by (simp add: ParseUint_def decimal_not_Nil ParseUint_loop_decimal)

lemma ParseInt_Sprint_d: "ParseInt (Sprint_d (sint w)) = Inr w"
proof (cases "sint w < 0")
  case True
  have lo: "- (2 ^ 63) \<le> sint w" using sint_ge[of w] by simp
  then have un: "nat (- sint w) \<le> 2 ^ 63" by simp
  then have "nat (- sint w) \<le> maxUint64" by (simp add: maxUint64_def)
  then have pu: "ParseUint (decimal (nat (- sint w))) = Inr (nat (- sint w))"
    by (rule ParseUint_decimal)
  have "- (of_nat (nat (- sint w)) :: int64) = of_int (sint w)"
    using True by simp
  then have wb: "- (of_nat (nat (- sint w)) :: int64) = w" by simp
  show ?thesis
    using True pu un wb by (simp add: ParseInt_def Sprint_d_def)
next
  case False
  have hi: "sint w < 2 ^ 63" using sint_lt[of w] by simp
  then have un: "nat (sint w) < 2 ^ 63" using False by simp
  then have "nat (sint w) \<le> maxUint64" by (simp add: maxUint64_def)
  then have pu: "ParseUint (decimal (nat (sint w))) = Inr (nat (sint w))"
    by (rule ParseUint_decimal)
  have "(of_nat (nat (sint w)) :: int64) = of_int (sint w)"
    using False by simp
  then have wb: "(of_nat (nat (sint w)) :: int64) = w" by simp
  show ?thesis
    using False pu un wb hd_decimal[of "nat (sint w)"] decimal_not_Nil[of "nat (sint w)"]
    by (simp add: ParseInt_def Sprint_d_def)
qed

lemma readInteger_Sprint_d:
  "readInteger (Sprint_d (sint w) @ CRLF @ rest) = (Inr w, rest)"
  by (simp add: readInteger_def readLine_CRLF LF_notin_Sprint_d ParseInt_Sprint_d)

subsection \<open>Bulk strings\<close>

text \<open>
  Within the range where \<^verbatim>\<open>length+2\<close> does not wrap and the buffer can be made, a
  declared length \<open>n\<close> makes \<^verbatim>\<open>readBulkString\<close> take \<open>n + 2\<close> bytes: it fails with
  \<^verbatim>\<open>io.EOF\<close> or \<^verbatim>\<open>io.ErrUnexpectedEOF\<close> when fewer are left, with \<^verbatim>\<open>ErrInvalidFormat\<close> when
  the last two are not CRLF, and returns the first \<open>n\<close> otherwise.
\<close>

lemma sint_of_nat_small: "n < 2 ^ 63 \<Longrightarrow> sint (of_nat n :: int64) = int n"
proof -
  assume "n < 2 ^ 63"
  then have "int n < 2 ^ 63" by (metis of_nat_less_numeral_power_cancel_iff)
  then have "signed_take_bit 63 (int n) = int n"
    by (intro signed_take_bit_int_eq_self) simp_all
  moreover have "sint (of_nat n :: int64) = signed_take_bit 63 (int n)"
    using sint_sbintrunc'[where 'a = 64 and bin = "int n"] by simp
  ultimately show ?thesis by simp
qed

lemma sint_plus_2:
  assumes "0 \<le> sint (len :: int64)" "sint len + 2 < 2 ^ 63"
  shows "sint (len + 2) = sint len + 2"
proof -
  have "len + 2 = word_of_int (sint len + 2)" by simp
  then have "sint (len + 2) = signed_take_bit 63 (sint len + 2)"
    using sint_sbintrunc'[where 'a = 64 and bin = "sint len + 2"] by simp
  also have "\<dots> = sint len + 2"
    using assms by (intro signed_take_bit_int_eq_self) simp_all
  finally show ?thesis .
qed

lemma maxAlloc_small: "int maxAlloc < 2 ^ 63" "maxAlloc < 2 ^ 63"
  by (simp_all add: maxAlloc_def)

lemma readBulkString_in_range:
  assumes ri: "readInteger inp = (Inr len, r)"
      and nonneg: "0 \<le> sint len"
      and fits: "nat (sint len) + 2 \<le> maxAlloc"
  shows "readBulkString inp =
     (if length r < nat (sint len) + 2
        then (Inl (Err (if r = [] then EOF else ErrUnexpectedEOF)), [])
      else if take 2 (drop (nat (sint len)) r) \<noteq> CRLF
        then (Inl (Err ErrInvalidFormat), drop (nat (sint len) + 2) r)
      else (Inr (take (nat (sint len)) r), drop (nat (sint len) + 2) r))"
proof -
  let ?n = "nat (sint len)"
  have lt: "sint len + 2 < 2 ^ 63"
    using fits nonneg maxAlloc_small(1) by linarith
  have s2: "sint (len + 2) = sint len + 2"
    using nonneg lt by (rule sint_plus_2)
  have n2: "nat (sint (len + 2)) = ?n + 2"
    using nonneg by (simp add: s2 nat_add_distrib)
  have not_null: "len \<noteq> - 1"
    using nonneg by (auto simp: sint_n1)
  have alloc: "makeslice_ok 1 (sint (len + 2))"
    using fits nonneg by (simp add: makeslice_ok_def s2 nat_add_distrib)
  have step: "readBulkString inp =
      (case ReadFull (?n + 2) r of
         (Inl f, r') \<Rightarrow> (Inl f, r')
       | (Inr buf, r') \<Rightarrow>
           if \<not> HasSuffix buf CRLF then (Inl (Err ErrInvalidFormat), r')
           else if sint len < 0 \<or> length buf < ?n then (Inl Panic, r')
           else (Inr (take ?n buf), r'))"
    using alloc by (simp add: readBulkString_def ri not_null n2)
  show ?thesis
  proof (cases "length r < ?n + 2")
    case True
    then show ?thesis by (simp add: step ReadFull_def)
  next
    case False
    then have rf: "ReadFull (?n + 2) r = (Inr (take (?n + 2) r), drop (?n + 2) r)"
      by (simp add: ReadFull_def)
    define buf where "buf = take (?n + 2) r"
    have len_buf: "length buf = ?n + 2" using False by (simp add: buf_def)
    have dr: "drop (length buf - length CRLF) buf = take 2 (drop ?n r)"
      by (simp add: len_buf CRLF_def) (simp add: buf_def drop_take)
    have suf: "HasSuffix buf CRLF \<longleftrightarrow> take 2 (drop ?n r) = CRLF"
      unfolding HasSuffix_def dr by (simp add: len_buf CRLF_def)
    have tk: "take ?n buf = take ?n r" by (simp add: buf_def min_def)
    have rf': "ReadFull (?n + 2) r = (Inr buf, drop (?n + 2) r)"
      using rf by (simp add: buf_def)
    show ?thesis
      using False nonneg unfolding step rf' by (simp add: suf tk len_buf)
  qed
qed

text \<open>
  Nothing below \<^verbatim>\<open>readBulkString\<close> panics, and its slice expression \<^verbatim>\<open>buf[:length]\<close> is
  always within bounds: a buffer that ends in CRLF has at least two bytes, so
  \<^verbatim>\<open>length\<close> is not negative. So \<^verbatim>\<open>readBulkString\<close> panics exactly when its \<^verbatim>\<open>make\<close> does.
\<close>

lemma ParseUint_loop_no_panic: "ParseUint_loop n s \<noteq> Inl Panic"
  by (induction s arbitrary: n) (auto simp: Let_def)

lemma ParseInt_no_panic: "ParseInt s \<noteq> Inl Panic"
  using ParseUint_loop_no_panic
  by (auto simp: ParseInt_def ParseUint_def Let_def split: sum.splits)

lemma readInteger_no_panic: "fst (readInteger inp) \<noteq> Inl Panic"
  using ParseInt_no_panic
  by (auto simp: readInteger_def readLine_def ReadString_def split: prod.splits sum.splits if_splits)

lemma sint_minus_2:
  assumes "2 \<le> sint (a :: int64)"
  shows "sint (a - 2) = sint a - 2"
proof -
  have hi: "sint a < 2 ^ 63" using sint_lt[of a] by simp
  have "a - 2 = word_of_int (sint a - 2)" by simp
  then have "sint (a - 2) = signed_take_bit 63 (sint a - 2)"
    using sint_sbintrunc'[where 'a = 64 and bin = "sint a - 2"] by simp
  also have "\<dots> = sint a - 2"
    using assms hi by (intro signed_take_bit_int_eq_self) simp_all
  finally show ?thesis .
qed

lemma readBulkString_Panic_iff:
  "fst (readBulkString inp) = Inl Panic \<longleftrightarrow>
     (\<exists>len r. readInteger inp = (Inr len, r) \<and> len \<noteq> - 1 \<and> \<not> makeslice_ok 1 (sint (len + 2)))"
proof -
  obtain x r where ri: "readInteger inp = (x, r)" by (cases "readInteger inp")
  show ?thesis
  proof (cases x)
    case (Inl f)
    then have "f \<noteq> Panic" using readInteger_no_panic[of inp] ri by auto
    with Inl ri show ?thesis by (simp add: readBulkString_def)
  next
    case (Inr len)
    show ?thesis
    proof (cases "len = - 1 \<or> \<not> makeslice_ok 1 (sint (len + 2))")
      case True
      with Inr ri show ?thesis by (auto simp: readBulkString_def)
    next
      case False
      then have ok: "0 \<le> sint (len + 2)" and nn: "len \<noteq> - 1" and mk: "makeslice_ok 1 (sint (len + 2))"
        by (auto simp: makeslice_ok_def)
      let ?n = "nat (sint (len + 2))"
      have inb: "\<not> (sint len < 0 \<or> length buf < nat (sint len))"
        if rf: "ReadFull ?n r = (Inr buf, r')" and suf: "HasSuffix buf CRLF" for buf r'
      proof -
        have lb: "length buf = ?n"
          using rf by (auto simp: ReadFull_def split: if_splits)
        have "2 \<le> length buf" using suf by (simp add: HasSuffix_def CRLF_def)
        then have two: "2 \<le> sint (len + 2)" using lb by linarith
        have "sint len = sint (len + 2) - 2"
          using sint_minus_2[OF two] by simp
        then show ?thesis using two lb by simp
      qed
      have "fst (readBulkString inp) \<noteq> Inl Panic"
        using Inr ri nn mk inb
        by (auto simp: readBulkString_def ReadFull_def split: prod.splits sum.splits if_splits)
      then show ?thesis using False Inr ri by auto
    qed
  qed
qed

subsection \<open>Arrays\<close>

text \<open>
  The loop of \<^verbatim>\<open>readArray\<close> does what \<^const>\<open>read_values\<close> says: started at index \<open>i\<close> with
  \<open>k\<close> slots to go, it returns the array with the next \<open>k\<close> values of the input in those
  slots, or the failure of the first value that fails, and then no array. So within
  the range where the array can be made, \<^verbatim>\<open>readArray\<close> returns the declared number of
  values in the order of the input, or that failure.
\<close>

lemma readArray_loop_read_values:
  "length array = i + k \<Longrightarrow>
   readArray_loop i array inp =
     (case read_values k inp of
        (Inl f, r) \<Rightarrow> (Inl f, r)
      | (Inr vs, r) \<Rightarrow> (Inr (SliceV (take i array @ vs)), r))"
proof (induction k arbitrary: i array inp)
  case 0
  then show ?case by (simp add: readArray_loop.simps[of i array inp])
next
  case (Suc k)
  then have lt: "i < length array" by simp
  obtain x r where ro: "ReadObject inp = (x, r)" by (cases "ReadObject inp")
  show ?case
  proof (cases x)
    case (Inl f)
    with ro lt show ?thesis by (simp add: readArray_loop.simps[of i array inp])
  next
    case (Inr v)
    have len: "length (array[i := v]) = (i + 1) + k" using Suc.prems by simp
    have tk: "take (Suc i) (array[i := v]) = take i array @ [v]"
      using lt by (simp add: take_Suc_conv_app_nth)
    have "readArray_loop i array inp = readArray_loop (i + 1) (array[i := v]) r"
      using ro Inr lt by (simp add: readArray_loop.simps[of i array inp])
    also have "\<dots> = (case read_values k r of
        (Inl f, r') \<Rightarrow> (Inl f, r')
      | (Inr vs, r') \<Rightarrow> (Inr (SliceV (take (i + 1) (array[i := v]) @ vs)), r'))"
      using len by (rule Suc.IH)
    finally show ?thesis
      using ro Inr by (simp add: tk split: prod.splits sum.splits)
  qed
qed

lemma readArray_in_range:
  assumes ri: "readInteger inp = (Inr len, r)"
      and nonneg: "0 \<le> sint len"
      and fits: "16 * nat (sint len) \<le> maxAlloc"
  shows "readArray inp =
     (case read_values (nat (sint len)) r of
        (Inl f, r') \<Rightarrow> (Inl f, r')
      | (Inr vs, r') \<Rightarrow> (Inr (SliceV vs), r'))"
proof -
  have not_null: "len \<noteq> - 1"
    using nonneg by (auto simp: sint_n1)
  have alloc: "makeslice_ok 16 (sint len)"
    using fits nonneg by (simp add: makeslice_ok_def)
  have "readArray inp = readArray_loop 0 (replicate (nat (sint len)) NilV) r"
    using alloc by (simp add: readArray.simps[of inp] ri not_null)
  also have "\<dots> = (case read_values (nat (sint len)) r of
        (Inl f, r') \<Rightarrow> (Inl f, r')
      | (Inr vs, r') \<Rightarrow> (Inr (SliceV (take 0 (replicate (nat (sint len)) NilV) @ vs)), r'))"
    by (rule readArray_loop_read_values) simp
  finally show ?thesis by (simp split: prod.splits sum.splits)
qed

lemma read_values_length:
  "read_values k inp = (Inr vs, r) \<Longrightarrow> length vs = k"
  by (induction k arbitrary: inp vs r) (auto split: prod.splits sum.splits)

subsection \<open>Encoding a tree\<close>

text \<open>
  The writes of a tree append its bytes to what was written before, and an array is
  its header followed by the encodings of its elements.
\<close>

lemma foldl_encode:
  assumes "\<And>v w. v \<in> set vs \<Longrightarrow> encode w v = w @ encode [] v"
  shows "foldl encode w vs = w @ concat (map (encode []) vs)"
  using assms
proof (induction vs arbitrary: w)
  case Nil
  show ?case by simp
next
  case (Cons v vs)
  have head: "encode w v = w @ encode [] v"
    by (rule Cons.prems) simp
  have "foldl encode w (v # vs) = foldl encode (encode w v) vs" by simp
  also have "\<dots> = encode w v @ concat (map (encode []) vs)"
    by (rule Cons.IH) (rule Cons.prems, simp)
  also have "\<dots> = w @ concat (map (encode []) (v # vs))"
    unfolding head by simp
  finally show ?case .
qed

lemma encode_append: "encode w v = w @ encode [] v"
proof (induction v arbitrary: w)
  case (ArrayR vs)
  have fe: "foldl encode w' vs = w' @ concat (map (encode []) vs)" for w'
    by (rule foldl_encode) (rule ArrayR)
  have "encode w (ArrayR vs) = foldl encode (WriteArray w (int (length vs))) vs" by simp
  also have "\<dots> = WriteArray w (int (length vs)) @ concat (map (encode []) vs)" by (rule fe)
  also have "\<dots> = w @ (WriteArray [] (int (length vs)) @ concat (map (encode []) vs))"
    by (simp add: WriteArray_def writeString_def)
  also have "WriteArray [] (int (length vs)) @ concat (map (encode []) vs)
      = foldl encode (WriteArray [] (int (length vs))) vs"
    by (rule fe[symmetric])
  finally show ?case by simp
next
  case (BulkStringR s)
  show ?case by (simp add: WriteBulkString_def writeString_def)
qed (simp_all add: WriteSimpleString_def WriteError_def WriteInteger_def WriteBulkString_def
      WriteArray_def writeString_def)

lemma encode_ArrayR:
  "encode [] (ArrayR vs) = Array # Sprint_d (int (length vs)) @ CRLF @ concat (map (encode []) vs)"
proof -
  have "foldl encode w vs = w @ concat (map (encode []) vs)" for w
    by (rule foldl_encode) (rule encode_append)
  then show ?thesis by (simp add: WriteArray_def writeString_def)
qed

lemma read_values_encoded:
  assumes "\<And>v rest. v \<in> set vs \<Longrightarrow> ReadObject (encode [] v @ rest) = (Inr (go_value v), rest)"
  shows "read_values (length vs) (concat (map (encode []) vs) @ rest) = (Inr (map go_value vs), rest)"
  using assms
proof (induction vs)
  case Nil
  show ?case by simp
next
  case (Cons v vs)
  have hd: "ReadObject (encode [] v @ (concat (map (encode []) vs) @ rest))
      = (Inr (go_value v), concat (map (encode []) vs) @ rest)"
    by (rule Cons.prems) simp
  have tl: "read_values (length vs) (concat (map (encode []) vs) @ rest) = (Inr (map go_value vs), rest)"
    by (rule Cons.IH) (rule Cons.prems, simp)
  show ?case by (simp add: hd tl)
qed


subsection \<open>Reading back what was written\<close>

text \<open>
  \<^verbatim>\<open>ReadObject\<close> looks at the first byte and goes on with the rest; the five type bytes
  differ from one another.
\<close>

lemma ReadObject_tag:
  "ReadObject (c # inp) =
     (if c = SimpleString then to_obj StringV (readLine inp)
      else if c = Error then to_obj ErrorV (readLine inp)
      else if c = Integer then to_obj Int64V (readInteger inp)
      else if c = BulkString then to_obj StringV (readBulkString inp)
      else if c = Array then readArray inp
      else (Inl (Err (UnknownType c)), inp))"
  by (simp add: ReadObject.simps[of "c # inp"] ReadByte_def)

lemma tags_distinct:
  "SimpleString \<noteq> Error" "SimpleString \<noteq> Integer" "SimpleString \<noteq> BulkString" "SimpleString \<noteq> Array"
  "Error \<noteq> SimpleString" "Error \<noteq> Integer" "Error \<noteq> BulkString" "Error \<noteq> Array"
  "Integer \<noteq> SimpleString" "Integer \<noteq> Error" "Integer \<noteq> BulkString" "Integer \<noteq> Array"
  "BulkString \<noteq> SimpleString" "BulkString \<noteq> Error" "BulkString \<noteq> Integer" "BulkString \<noteq> Array"
  "Array \<noteq> SimpleString" "Array \<noteq> Error" "Array \<noteq> Integer" "Array \<noteq> BulkString"
  by (simp_all add: SimpleString_def Error_def Integer_def BulkString_def Array_def)

lemma readInteger_minus_1:
  "readInteger (CHR ''-'' # CHR ''1'' # CRLF @ rest) = (Inr (- 1), rest)"
  by (simp add: readInteger_def readLine_def ReadString_def ParseInt_def ParseUint_def
      is_digit_def maxUint64_def CRLF_def CR_def LF_def)

lemma readInteger_length_prefix:
  assumes "n < 2 ^ 63"
  shows "readInteger (Sprint_d (int n) @ CRLF @ rest) = (Inr (of_nat n), rest)"
  using readInteger_Sprint_d[of "of_nat n :: int64" rest] assms
  by (simp add: sint_of_nat_small)

lemma readBulkString_encoded:
  assumes "s \<noteq> []" "length s + 2 \<le> maxAlloc"
  shows "readBulkString (Sprint_d (int (length s)) @ CRLF @ s @ CRLF @ rest) = (Inr s, rest)"
proof -
  let ?len = "of_nat (length s) :: int64"
  have small: "length s < 2 ^ 63" using assms(2) maxAlloc_small(2) by linarith
  have sl: "sint ?len = int (length s)" using small by (rule sint_of_nat_small)
  have ri: "readInteger (Sprint_d (int (length s)) @ CRLF @ s @ CRLF @ rest)
      = (Inr ?len, s @ CRLF @ rest)"
    using small by (rule readInteger_length_prefix)
  have "readBulkString (Sprint_d (int (length s)) @ CRLF @ s @ CRLF @ rest) =
     (if length (s @ CRLF @ rest) < nat (sint ?len) + 2
        then (Inl (Err (if s @ CRLF @ rest = [] then EOF else ErrUnexpectedEOF)), [])
      else if take 2 (drop (nat (sint ?len)) (s @ CRLF @ rest)) \<noteq> CRLF
        then (Inl (Err ErrInvalidFormat), drop (nat (sint ?len) + 2) (s @ CRLF @ rest))
      else (Inr (take (nat (sint ?len)) (s @ CRLF @ rest)),
            drop (nat (sint ?len) + 2) (s @ CRLF @ rest)))"
    using ri by (rule readBulkString_in_range) (use assms(2) in \<open>simp_all add: sl\<close>)
  then show ?thesis by (simp add: sl CRLF_def)
qed

lemma ReadObject_encode:
  "carried v \<Longrightarrow> ReadObject (encode [] v @ rest) = (Inr (go_value v), rest)"
proof (induction v arbitrary: rest)
  case (SimpleStringR s)
  then show ?case
    by (simp add: WriteSimpleString_def writeString_def ReadObject_tag tags_distinct readLine_CRLF to_obj_def)
next
  case (ErrorR msg)
  then show ?case
        by (simp add: WriteError_def writeString_def ReadObject_tag tags_distinct readLine_CRLF to_obj_def)
next
  case (IntegerR i)
  then show ?case
        by (simp add: WriteInteger_def writeString_def ReadObject_tag tags_distinct readInteger_Sprint_d to_obj_def)
next
  case (BulkStringR s)
  show ?case
  proof (cases "s = []")
    case True
    have "readBulkString (CHR ''-'' # CHR ''1'' # CRLF @ rest) = (Inr [], rest)"
      by (simp add: readBulkString_def readInteger_minus_1)
    then show ?thesis
      using True
      by (simp add: WriteBulkString_def writeString_def ReadObject_tag tags_distinct to_obj_def)
  next
    case False
    have "readBulkString (Sprint_d (int (length s)) @ CRLF @ s @ CRLF @ rest) = (Inr s, rest)"
      using False BulkStringR by (intro readBulkString_encoded) simp_all
    then show ?thesis
      using False
      by (simp add: WriteBulkString_def writeString_def ReadObject_tag tags_distinct to_obj_def)
  qed
next
  case NullBulkStringR
  have "readBulkString (CHR ''-'' # CHR ''1'' # CRLF @ rest) = (Inr [], rest)"
    by (simp add: readBulkString_def readInteger_minus_1)
  then show ?case
        by (simp add: WriteBulkString_def writeString_def ReadObject_tag tags_distinct to_obj_def)
next
  case (ArrayR vs)
  let ?n = "length vs"
  let ?len = "of_nat ?n :: int64"
  let ?body = "concat (map (encode []) vs) @ rest"
  have fits: "16 * ?n \<le> maxAlloc" using ArrayR.prems by simp
  then have small: "?n < 2 ^ 63" using maxAlloc_small(2) by linarith
  have sl: "sint ?len = int ?n" using small by (rule sint_of_nat_small)
  have ri: "readInteger (Sprint_d (int ?n) @ CRLF @ ?body) = (Inr ?len, ?body)"
    using small by (rule readInteger_length_prefix)
  have elems: "read_values ?n ?body = (Inr (map go_value vs), rest)"
  proof (rule read_values_encoded)
    fix v rest'
    assume "v \<in> set vs"
    then show "ReadObject (encode [] v @ rest') = (Inr (go_value v), rest')"
      using ArrayR.IH[of v rest'] ArrayR.prems by simp
  qed
  have "readArray (Sprint_d (int ?n) @ CRLF @ ?body) =
     (case read_values (nat (sint ?len)) ?body of
        (Inl f, r') \<Rightarrow> (Inl f, r')
      | (Inr vs, r') \<Rightarrow> (Inr (SliceV vs), r'))"
    using ri by (rule readArray_in_range) (simp_all add: sl fits)
  then have "readArray (Sprint_d (int ?n) @ CRLF @ ?body) = (Inr (SliceV (map go_value vs)), rest)"
    by (simp add: sl elems)
  then show ?case
    unfolding encode_ArrayR by (simp add: ReadObject_tag tags_distinct del: encode.simps)
next
  case NullArrayR
  have "readArray (CHR ''-'' # CHR ''1'' # CRLF @ rest) = (Inr NilSliceV, rest)"
    by (simp add: readArray.simps[of "CHR ''-'' # CHR ''1'' # CRLF @ rest"] readInteger_minus_1)
  then show ?case
        by (simp add: WriteArray_def writeString_def ReadObject_tag tags_distinct)
qed


section \<open>The claims about the codec\<close>

text \<open>
  The definitions that evaluate a read or a write on given bytes, and the ten digits.
\<close>

lemma digit_char_values:
  "digit_char 0 = CHR ''0''" "digit_char (Suc 0) = CHR ''1''" "digit_char 1 = CHR ''1''"
  "digit_char 2 = CHR ''2''" "digit_char 3 = CHR ''3''" "digit_char 4 = CHR ''4''"
  "digit_char 5 = CHR ''5''" "digit_char 6 = CHR ''6''" "digit_char 7 = CHR ''7''"
  "digit_char 8 = CHR ''8''" "digit_char 9 = CHR ''9''"
  by (simp_all add: digit_char_def char_of_def bit_iff_odd)

lemmas reader_defs = ReadByte_def ReadString_def ReadFull_def readLine_def readInteger_def
  readBulkString_def to_obj_def ParseInt_def ParseUint_def is_digit_def maxUint64_def
  makeslice_ok_def maxAlloc_def HasSuffix_def
  SimpleString_def Error_def Integer_def BulkString_def Array_def CR_def LF_def CRLF_def

lemmas writer_defs = WriteSimpleString_def WriteError_def WriteInteger_def WriteBulkString_def
  WriteArray_def writeString_def Sprint_d_def decimal.simps digit_char_values

text \<open>
  C7. \<^verbatim>\<open>WriteBulkString\<close> with the empty string adds exactly the bytes \<^verbatim>\<open>$-1\r\n\<close> to the
  output; with a string \<open>s\<close> that is not empty it adds \<^verbatim>\<open>$\<close>, the number of bytes of \<open>s\<close> in
  decimal, CRLF, the bytes of \<open>s\<close> and CRLF. The length field consists of decimal digits,
  and the number they stand for is the number of bytes of \<open>s\<close>.
\<close>

theorem WriteBulkString_bytes:
  "WriteBulkString w [] = w @ ''$-1'' @ CRLF \<and>
   (s \<noteq> [] \<longrightarrow>
      WriteBulkString w s = w @ ''$'' @ Sprint_d (int (length s)) @ CRLF @ s @ CRLF \<and>
      list_all is_digit (Sprint_d (int (length s))) \<and>
      decimal_value (Sprint_d (int (length s))) = length s)"
  by (simp add: WriteBulkString_def writeString_def BulkString_def Sprint_d_def
      decimal_digits decimal_value_decimal)

theorem WriteBulkString_bytes_witness:
  "WriteBulkString ''+OK'' ''hello, world'' = ''+OK$12'' @ CRLF @ ''hello, world'' @ CRLF \<and>
   decimal_value ''12'' = length ''hello, world''"
  using WriteBulkString_bytes [of "''+OK''" "''hello, world''"]
  by (simp add: Sprint_d_def decimal.simps digit_char_values)

text \<open>
  C8, as the claim states it, fails: the value that \<^verbatim>\<open>ReadObject\<close> returns for
  \<^verbatim>\<open>$-1\r\n\<close> is not distinct from the value it returns for \<^verbatim>\<open>$0\r\n\r\n\<close>. Both are the empty
  Go string, returned with a nil error.
\<close>

theorem ReadObject_null_bulk_is_empty_string_counterexample:
  "\<not> (fst (ReadObject (''$-1'' @ CRLF)) \<noteq> fst (ReadObject (''$0'' @ CRLF @ CRLF)))"
  by (simp add: ReadObject.simps reader_defs)

text \<open>
  C8, amended. Decoding \<^verbatim>\<open>$-1\r\n\<close> returns the empty string and no error, which is also
  what decoding \<^verbatim>\<open>$0\r\n\r\n\<close> returns, and it takes nothing from the input beyond the
  length line: whatever follows is left unread.
\<close>

theorem ReadObject_null_bulk:
  "ReadObject (''$-1'' @ CRLF @ rest) = (Inr (StringV []), rest) \<and>
   ReadObject (''$0'' @ CRLF @ CRLF @ rest) = (Inr (StringV []), rest)"
  by (simp add: ReadObject.simps reader_defs)

text \<open>
  C9. The claim is that \<^verbatim>\<open>ReadObject\<close> returns a value or an error on every input and
  never panics. On \<^verbatim>\<open>$-3\r\n\<close> the code evaluates \<^verbatim>\<open>make([]byte, -1)\<close> and on \<^verbatim>\<open>*-2\r\n\<close> it
  evaluates \<^verbatim>\<open>make([]interface{}, -2)\<close>: both panic.
\<close>

theorem ReadObject_negative_length_panics:
  "ReadObject (''$-3'' @ CRLF) = (Inl Panic, []) \<and> ReadObject (''*-2'' @ CRLF) = (Inl Panic, [])"
  by (simp add: ReadObject.simps readArray.simps reader_defs)

text \<open>
  C2. The claim is that for every declared length \<open>n \<ge> 0\<close> the reader takes \<open>n + 2\<close> bytes
  and fails with a truncated-input error when fewer are left. The lemma
  \<open>readBulkString_in_range\<close> shows the code doing so, with the framing error and the
  payload as the claim has them, as long as \<open>n + 2\<close> is at most \<^const>\<open>maxAlloc\<close>. For the
  declared length \<open>2\<^sup>6\<^sup>3 - 1\<close> the sum \<^verbatim>\<open>length+2\<close> wraps to a negative number, and the
  code panics in \<^verbatim>\<open>make\<close> where the claim has it return the truncated-input error.
\<close>

theorem readBulkString_huge_length_panics:
  "ReadObject (''$9223372036854775807'' @ CRLF) = (Inl Panic, [])"
  by (simp add: ReadObject.simps reader_defs)

text \<open>
  C3. The claim is that for every declared length \<open>n \<ge> 0\<close> the reader reads \<open>n\<close> values in
  order and returns the failure of an element that fails, with no partial array. The
  lemma \<open>readArray_in_range\<close> shows the code doing so as long as \<open>n\<close> slots of 16 bytes are at
  most \<^const>\<open>maxAlloc\<close>. For the declared length \<open>2\<^sup>6\<^sup>3 - 1\<close> the code panics in \<^verbatim>\<open>make\<close>
  before it reads an element, where the claim has it return the end-of-stream failure
  of the first element; and an element whose read panics makes the read of the array
  panic, where the claim has it return a failure.
\<close>

theorem readArray_huge_length_panics:
  "ReadObject (''*9223372036854775807'' @ CRLF) = (Inl Panic, []) \<and>
   ReadObject (''*1'' @ CRLF @ ''$-3'' @ CRLF) = (Inl Panic, [])"
  by (simp add: ReadObject.simps readArray.simps readArray_loop.simps reader_defs)

text \<open>
  C1, as the claim states it, fails: the simple string \<^verbatim>\<open>a\nb\<close> is not an empty bulk
  string, and decoding its encoding \<^verbatim>\<open>+a\nb\r\n\<close> fails with \<^verbatim>\<open>ErrInvalidFormat\<close>, the
  reader taking \<^verbatim>\<open>a\n\<close> for the line.
\<close>

theorem ReadObject_encode_line_feed_counterexample:
  "ReadObject (encode [] (SimpleStringR (''a'' @ [LF] @ ''b''))) = (Inl (Err ErrInvalidFormat), ''b'' @ CRLF) \<and>
   fst (ReadObject (encode [] (SimpleStringR (''a'' @ [LF] @ ''b'')))) \<noteq> Inr (go_value (SimpleStringR (''a'' @ [LF] @ ''b'')))"
  by (simp add: ReadObject.simps reader_defs writer_defs)

text \<open>
  C1, amended. For every tree that the codec carries (no line feed in a simple string
  or in an error message, every bulk string and array within the reader's allocation
  limit), decoding the bytes that encoding the tree produces returns the Go value of
  the tree and leaves unread whatever follows those bytes. An empty bulk string is
  written as the null bulk string \<^verbatim>\<open>$-1\r\n\<close>, and the empty string it is decoded to is the
  value by which the reader represents the null bulk string.
\<close>

theorem ReadObject_encode_round_trip:
  assumes "carried v"
  shows "ReadObject (encode [] v @ rest) = (Inr (go_value v), rest) \<and>
         (v = BulkStringR [] \<longrightarrow>
            encode [] v = ''$-1'' @ CRLF \<and> encode [] v = encode [] NullBulkStringR \<and>
            go_value v = go_value NullBulkStringR)"
  using assms ReadObject_encode[of v rest]
  by (auto simp: WriteBulkString_def writeString_def BulkString_def)

theorem ReadObject_encode_round_trip_witness:
  "carried (ArrayR [BulkStringR ''ECHO'', IntegerR (- 12), SimpleStringR ''OK'', ErrorR ''ERR x'',
                    BulkStringR [], NullArrayR, ArrayR []]) \<and>
   encode [] (ArrayR [BulkStringR ''ECHO'', IntegerR (- 12), SimpleStringR ''OK'', ErrorR ''ERR x'',
                    BulkStringR [], NullArrayR, ArrayR []])
     = ''*7'' @ CRLF @ ''$4'' @ CRLF @ ''ECHO'' @ CRLF @ '':-12'' @ CRLF @ ''+OK'' @ CRLF @
       ''-ERR x'' @ CRLF @ ''$-1'' @ CRLF @ ''*-1'' @ CRLF @ ''*0'' @ CRLF \<and>
   ReadObject (''*7'' @ CRLF @ ''$4'' @ CRLF @ ''ECHO'' @ CRLF @ '':-12'' @ CRLF @ ''+OK'' @ CRLF @
       ''-ERR x'' @ CRLF @ ''$-1'' @ CRLF @ ''*-1'' @ CRLF @ ''*0'' @ CRLF @ ''next'')
     = (Inr (SliceV [StringV ''ECHO'', Int64V (- 12), StringV ''OK'', ErrorV ''ERR x'',
                     StringV [], NilSliceV, SliceV []]), ''next'') \<and>
   carried (BulkStringR []) \<and>
   encode [] (BulkStringR []) = ''$-1'' @ CRLF \<and>
   ReadObject (''$-1'' @ CRLF @ ''next'') = (Inr (go_value NullBulkStringR), ''next'')"
proof -
  let ?v = "ArrayR [BulkStringR ''ECHO'', IntegerR (- 12), SimpleStringR ''OK'', ErrorR ''ERR x'',
                    BulkStringR [], NullArrayR, ArrayR []]"
  have c: "carried ?v" by (simp add: maxAlloc_def LF_def)
  have e: "encode [] ?v = ''*7'' @ CRLF @ ''$4'' @ CRLF @ ''ECHO'' @ CRLF @ '':-12'' @ CRLF @ ''+OK'' @ CRLF @
       ''-ERR x'' @ CRLF @ ''$-1'' @ CRLF @ ''*-1'' @ CRLF @ ''*0'' @ CRLF"
    by (simp add: writer_defs sint_n1 SimpleString_def Error_def Integer_def BulkString_def Array_def)
  have r: "ReadObject (encode [] ?v @ ''next'') = (Inr (go_value ?v), ''next'')"
    using ReadObject_encode_round_trip [OF c, of "''next''"] by blast
  have c0: "carried (BulkStringR [])" by (simp add: maxAlloc_def)
  have r0: "ReadObject (encode [] (BulkStringR []) @ ''next'') = (Inr (go_value (BulkStringR [])), ''next'')"
    and e0: "encode [] (BulkStringR []) = ''$-1'' @ CRLF"
    and g0: "go_value (BulkStringR []) = go_value NullBulkStringR"
    using ReadObject_encode_round_trip [OF c0, of "''next''"] by blast+
  have "ReadObject (''$-1'' @ CRLF @ ''next'') = (Inr (go_value NullBulkStringR), ''next'')"
    using r0 unfolding e0 g0 by simp
  then show ?thesis using c e r c0 e0 by simp
qed

section \<open>The claims about the registry\<close>

text \<open>
  C4. Registering fails with its own error for a nil command, for an empty name and
  for a nil handler, each time leaving the registry as it was; a command with a name
  and a handler is stored under its name, in place of whatever was there, and the call
  returns nil.
\<close>

theorem AddCommand_outcomes:
  "AddCommand e None = (Some (errors_New ''command cannot be nil''), e) \<and>
   (Command.Name c = [] \<longrightarrow>
      AddCommand e (Some c) = (Some (errors_New ''command name cannot be empty''), e)) \<and>
   (Command.Name c \<noteq> [] \<and> Handler c = None \<longrightarrow>
      AddCommand e (Some c) = (Some (errors_New ''command handler cannot be nil''), e)) \<and>
   (Command.Name c \<noteq> [] \<and> Handler c \<noteq> None \<longrightarrow>
      AddCommand e (Some c) = (None, e\<lparr>commands := (commands e)(Command.Name c \<mapsto> c)\<rparr>)) \<and>
   distinct [errors_New ''command cannot be nil'', errors_New ''command name cannot be empty'',
             errors_New ''command handler cannot be nil'']"
  by (simp add: AddCommand_def)

theorem AddCommand_outcomes_witness:
  "AddCommand (NewExtension ''demo'') (Some (New [] :: nat Command))
     = (Some (errors_New ''command name cannot be empty''), NewExtension ''demo'') \<and>
   AddCommand (NewExtension ''demo'') (Some (New ''PING'' :: nat Command))
     = (Some (errors_New ''command handler cannot be nil''), NewExtension ''demo'') \<and>
   AddCommand (NewExtension ''demo'') (Some ((New ''PING'')\<lparr>Handler := Some (7::nat)\<rparr>))
     = (None, (NewExtension ''demo'')
          \<lparr>commands := [''PING'' \<mapsto> (New ''PING'')\<lparr>Handler := Some 7\<rparr>]\<rparr>)"
  using AddCommand_outcomes [of "NewExtension ''demo''" "New [] :: nat Command"]
        AddCommand_outcomes [of "NewExtension ''demo''" "New ''PING'' :: nat Command"]
        AddCommand_outcomes [of "NewExtension ''demo''" "(New ''PING'')\<lparr>Handler := Some (7::nat)\<rparr>"]
  by (simp add: New_def NewExtension_def)

text \<open>
  C5. Two commands with a name and a handler, both under the same name: after
  registering the first and then the second, both calls have returned nil, the registry
  differs from the one before only at that name, where it holds the second command, and
  looking the name up returns the second command.
\<close>

theorem AddCommand_last_write_wins:
  assumes "Command.Name c1 \<noteq> []" "Handler c1 \<noteq> None"
      and "Command.Name c2 \<noteq> []" "Handler c2 \<noteq> None"
      and "Command.Name c1 = Command.Name c2"
  shows "\<exists>e1 e2. AddCommand e (Some c1) = (None, e1) \<and> AddCommand e1 (Some c2) = (None, e2) \<and>
           commands e2 = (commands e)(Command.Name c2 \<mapsto> c2) \<and>
           dom (commands e2) = insert (Command.Name c2) (dom (commands e)) \<and>
           GetCommand e2 (Command.Name c1) = Inr c2"
  using assms by (simp add: AddCommand_def GetCommand_def)

theorem AddCommand_last_write_wins_witness:
  "\<exists>e1 e2. AddCommand (NewExtension ''demo'') (Some ((New ''PING'')\<lparr>Handler := Some (1::nat)\<rparr>)) = (None, e1) \<and>
      AddCommand e1 (Some ((New ''PING'')\<lparr>Handler := Some 2\<rparr>)) = (None, e2) \<and>
      commands e2 = [''PING'' \<mapsto> (New ''PING'')\<lparr>Handler := Some 2\<rparr>] \<and>
      dom (commands e2) = {''PING''} \<and>
      GetCommand e2 ''PING'' = Inr ((New ''PING'')\<lparr>Handler := Some 2\<rparr>)"
  using AddCommand_last_write_wins [of "(New ''PING'')\<lparr>Handler := Some (1::nat)\<rparr>"
      "(New ''PING'')\<lparr>Handler := Some (2::nat)\<rparr>" "NewExtension ''demo''"]
  by (simp add: New_def NewExtension_def)

text \<open>
  C6. A lookup succeeds exactly when the map has an entry under the very name asked
  for, and then returns that entry; otherwise it fails with \<^verbatim>\<open>ErrCommandNotFound\<close>. In
  terms of the registry's operations: a new registry knows no name, and a successful
  registration changes the answer for the registered name and for no other, names being
  compared byte by byte.
\<close>

theorem GetCommand_exact_name:
  "(GetCommand (e :: 'h Extension) name = Inr c \<longleftrightarrow> commands e name = Some c) \<and>
   (GetCommand e name = Inl err \<longleftrightarrow> commands e name = None \<and> err = ErrCommandNotFound) \<and>
   GetCommand (NewExtension x :: 'h Extension) name = Inl ErrCommandNotFound \<and>
   (AddCommand e (Some c') = (None, e') \<longrightarrow>
      GetCommand e' name = (if name = Command.Name c' then Inr c' else GetCommand e name))"
  by (auto simp: GetCommand_def NewExtension_def AddCommand_def split: option.splits if_splits)

theorem GetCommand_exact_name_witness:
  "AddCommand (NewExtension ''demo'') (Some ((New ''ECHO'')\<lparr>Handler := Some (1::nat)\<rparr>))
     = (None, (NewExtension ''demo'')\<lparr>commands := [''ECHO'' \<mapsto> (New ''ECHO'')\<lparr>Handler := Some 1\<rparr>]\<rparr>) \<and>
   GetCommand ((NewExtension ''demo'')\<lparr>commands := [''ECHO'' \<mapsto> (New ''ECHO'')\<lparr>Handler := Some (1::nat)\<rparr>]\<rparr>) ''ECHO''
     = Inr ((New ''ECHO'')\<lparr>Handler := Some 1\<rparr>) \<and>
   GetCommand ((NewExtension ''demo'')\<lparr>commands := [''ECHO'' \<mapsto> (New ''ECHO'')\<lparr>Handler := Some (1::nat)\<rparr>]\<rparr>) ''echo''
     = Inl ErrCommandNotFound"
proof -
  let ?c = "(New ''ECHO'')\<lparr>Handler := Some (1::nat)\<rparr>"
  let ?e = "NewExtension ''demo'' :: nat Extension"
  let ?e' = "?e\<lparr>commands := [''ECHO'' \<mapsto> ?c]\<rparr>"
  have add: "AddCommand ?e (Some ?c) = (None, ?e')"
    by (simp add: AddCommand_def New_def NewExtension_def)
  have hit: "GetCommand ?e' ''ECHO'' = (if ''ECHO'' = Command.Name ?c then Inr ?c else GetCommand ?e ''ECHO'')"
    using GetCommand_exact_name [where e = ?e and name = "''ECHO''" and c' = ?c and e' = ?e'] add by blast
  have miss: "GetCommand ?e' ''echo'' = (if ''echo'' = Command.Name ?c then Inr ?c else GetCommand ?e ''echo'')"
    using GetCommand_exact_name [where e = ?e and name = "''echo''" and c' = ?c and e' = ?e'] add by blast
  have new: "GetCommand ?e ''echo'' = Inl ErrCommandNotFound"
    using GetCommand_exact_name [where e = ?e and x = "''demo''" and name = "''echo''"] by blast
  show ?thesis using add hit miss new by (simp add: New_def)
qed

text \<open>
  The registry of pointers and its view at a fixed store do the same: registering a
  pointer registers, in the view, the command it points to, and a lookup returns the
  pointer to the command that the lookup in the view returns.
\<close>

lemma AddCommand_view:
  "AddCommand (view h e) (map_option h cmd) =
     (fst (AddCommand_ptr h e cmd), view h (snd (AddCommand_ptr h e cmd)))"
  by (cases cmd) (auto simp: AddCommand_def AddCommand_ptr_def view_def)

lemma GetCommand_view:
  "GetCommand (view h e) name = map_sum id h (GetCommand_ptr e name)"
  by (simp add: GetCommand_def GetCommand_ptr_def view_def split: option.splits)

lemma well_formed_new: "well_formed (h, NewExtension_ptr x)"
  by (simp add: well_formed_def NewExtension_ptr_def)

lemma ran_upd_subset: "ran (m(k \<mapsto> v)) \<subseteq> insert v (ran m)"
  by (auto simp: ran_def split: if_splits)

lemma well_formed_step:
  assumes wf: "well_formed s" and lr: "leaves_registered s ev"
  shows "well_formed (step s ev)"
proof -
  obtain h e where s: "s = (h, e)" by (cases s)
  have same: "well_formed (h', e)"
    if "\<And>a. a \<in> ran (Extension_ptr.commands e) \<Longrightarrow>
          Command.Name (h' a) = Command.Name (h a) \<and> Handler (h' a) = Handler (h a)" for h'
    using wf that by (simp add: well_formed_def s)
  show ?thesis
  proof (cases ev)
    case (Register cmd)
    show ?thesis
    proof (cases cmd)
      case None
      with wf Register show ?thesis by (simp add: s AddCommand_ptr_def)
    next
      case (Some a)
      show ?thesis
        using wf Register Some ran_upd_subset[of "Extension_ptr.commands e" "Command.Name (h a)" a]
        by (auto simp: s AddCommand_ptr_def well_formed_def)
    qed
  next
    case (Assign_Name a x)
    with lr have "a \<notin> ran (Extension_ptr.commands e)" by (simp add: s)
    then show ?thesis unfolding s Assign_Name step.simps by (intro same) auto
  next
    case (Assign_Handler a f)
    with lr have "a \<notin> ran (Extension_ptr.commands e)" by (simp add: s)
    then show ?thesis unfolding s Assign_Handler step.simps by (intro same) auto
  next
    case (Assign_MinArgs a n)
    show ?thesis unfolding s Assign_MinArgs step.simps by (intro same) auto
  next
    case (Assign_MaxArgs a n)
    show ?thesis unfolding s Assign_MaxArgs step.simps by (intro same) auto
  next
    case (Assign_Description a x)
    show ?thesis unfolding s Assign_Description step.simps by (intro same) auto
  qed
qed

lemma well_formed_run:
  "well_formed s \<Longrightarrow> undisturbed s evs \<Longrightarrow> well_formed (run s evs)"
  by (induction evs arbitrary: s) (simp_all add: well_formed_step)

text \<open>
  C10, as the claim states it, fails. A program makes a command \<^verbatim>\<open>PING\<close> with a handler
  and registers it, and \<^verbatim>\<open>AddCommand\<close> returns nil; the program then assigns nil to the
  handler through the pointer it still holds. All the registry did was a registry
  operation, and yet the lookup of \<^verbatim>\<open>PING\<close> succeeds and returns a command whose handler
  is nil.
\<close>

theorem registered_handler_assigned_nil_counterexample:
  "fst (AddCommand_ptr
          (fst (run (new_store, NewExtension_ptr ''demo'')
                  [Assign_Name 0 ''PING'', Assign_Handler 0 (Some (7::nat))]))
          (NewExtension_ptr ''demo'') (Some 0)) = None \<and>
   GetCommand_ptr
     (snd (run (new_store, NewExtension_ptr ''demo'')
             [Assign_Name 0 ''PING'', Assign_Handler 0 (Some (7::nat)), Register (Some 0),
              Assign_Handler 0 None])) ''PING'' = Inr 0 \<and>
   Handler
     (fst (run (new_store, NewExtension_ptr ''demo'')
             [Assign_Name 0 ''PING'', Assign_Handler 0 (Some (7::nat)), Register (Some 0),
              Assign_Handler 0 None]) 0) = None"
  by (simp add: AddCommand_ptr_def GetCommand_ptr_def NewExtension_ptr_def new_store_def New_def)

text \<open>
  C10, amended. A new registry points to no command; \<^verbatim>\<open>AddCommand\<close> registers a pointer
  only if the command it points to has a name and a handler at that moment, and no
  operation of the registry writes a command. So after any run of registrations and
  assignments from a new registry in which no step assigns to the name or the handler
  of a command that is registered at that moment, every command the registry points to
  has a name that is not empty and a handler that is not nil, and so has the command
  that a successful lookup returns.
\<close>

theorem registered_commands_well_formed:
  assumes "undisturbed (h0, NewExtension_ptr x) evs"
      and "run (h0, NewExtension_ptr x) evs = (h, e)"
  shows "(\<forall>a \<in> ran (Extension_ptr.commands e). Command.Name (h a) \<noteq> [] \<and> Handler (h a) \<noteq> None) \<and>
         (GetCommand_ptr e name = Inr a \<longrightarrow> Command.Name (h a) \<noteq> [] \<and> Handler (h a) \<noteq> None)"
proof -
  have "well_formed (run (h0, NewExtension_ptr x) evs)"
    using well_formed_new assms(1) by (rule well_formed_run)
  then have wf: "\<forall>a \<in> ran (Extension_ptr.commands e). Command.Name (h a) \<noteq> [] \<and> Handler (h a) \<noteq> None"
    by (simp add: assms(2) well_formed_def)
  moreover have "a \<in> ran (Extension_ptr.commands e)" if "GetCommand_ptr e name = Inr a"
    using that by (auto simp: GetCommand_ptr_def ran_def split: option.splits)
  ultimately show ?thesis by blast
qed

theorem registered_commands_well_formed_witness:
  "undisturbed (new_store, NewExtension_ptr ''demo'')
     [Assign_Name 0 ''PING'', Assign_Handler 0 (Some (7::nat)), Register (Some 0),
      Assign_Description 0 ''replies PONG''] \<and>
   GetCommand_ptr
     (snd (run (new_store, NewExtension_ptr ''demo'')
             [Assign_Name 0 ''PING'', Assign_Handler 0 (Some (7::nat)), Register (Some 0),
              Assign_Description 0 ''replies PONG''])) ''PING'' = Inr 0 \<and>
   Handler
     (fst (run (new_store, NewExtension_ptr ''demo'')
             [Assign_Name 0 ''PING'', Assign_Handler 0 (Some (7::nat)), Register (Some 0),
              Assign_Description 0 ''replies PONG'']) 0) \<noteq> None"
proof -
  let ?s = "(new_store, NewExtension_ptr ''demo'') :: nat store \<times> Extension_ptr"
  let ?evs = "[Assign_Name 0 ''PING'', Assign_Handler 0 (Some (7::nat)), Register (Some 0),
      Assign_Description 0 ''replies PONG'']"
  have u: "undisturbed ?s ?evs"
    by (simp add: NewExtension_ptr_def)
  have g: "GetCommand_ptr (snd (run ?s ?evs)) ''PING'' = Inr 0"
    by (simp add: AddCommand_ptr_def GetCommand_ptr_def NewExtension_ptr_def new_store_def New_def)
  have "Handler (fst (run ?s ?evs) 0) \<noteq> None"
    using registered_commands_well_formed [OF u, of "fst (run ?s ?evs)" "snd (run ?s ?evs)" "''PING''" 0] g
    by simp
  with u g show ?thesis by blast
qed

end
